theory Spec2Isabelle
  imports Main
begin

section \<open>Strings and arrays of the host language\<close>

text \<open>
  The INI codec works on JavaScript strings. A string is modelled as a \<^typ>\<open>string\<close>, a
  list of code units; the code units of the model are the 256 values of \<^typ>\<open>char\<close>, which
  cover every character the codec tests for (\<open>#\<close>, \<open>=\<close>, \<open>[\<close>, \<open>]\<close>, \<open>$\<close>, \<open>+\<close>,
  \<open>*\<close>, the two quotes, the three code units \<open>EF BB BF\<close> and the line terminators).
  The regular expression class \<open>\s\<close> is modelled by its members below 256: tab, line feed,
  vertical tab, form feed, carriage return, space and no-break space.
\<close>

definition LF :: char where
  "LF = CHR 0x0A"

definition CR :: char where
  "CR = CHR 0x0D"

definition is_whitespace :: "char \<Rightarrow> bool" where
  "is_whitespace c \<longleftrightarrow>
     c = CHR 0x09 \<or> c = CHR 0x0A \<or> c = CHR 0x0B \<or> c = CHR 0x0C \<or> c = CHR 0x0D \<or>
     c = CHR 0x20 \<or> c = CHR 0xA0"

definition is_quote :: "char \<Rightarrow> bool" where
  "is_quote c \<longleftrightarrow> c = CHR 0x27 \<or> c = CHR 0x22"

text \<open>\<open>s.replace(/\s+/g, "")\<close>: every run of whitespace is deleted.\<close>

definition remove_whitespace :: "string \<Rightarrow> string" where
  "remove_whitespace s = filter (\<lambda>c. \<not> is_whitespace c) s"

text \<open>\<open>s.replace(/['"]+/g, "")\<close>: every run of quote characters is deleted.\<close>

definition remove_quotes :: "string \<Rightarrow> string" where
  "remove_quotes s = filter (\<lambda>c. \<not> is_quote c) s"

text \<open>\<open>s[0]\<close>: the first code unit, \<open>undefined\<close> (here \<open>None\<close>) on the empty string.\<close>

definition char_at0 :: "string \<Rightarrow> char option" where
  "char_at0 s = (case s of [] \<Rightarrow> None | c # _ \<Rightarrow> Some c)"

text \<open>\<open>xs.indexOf(c)\<close>: the first position of \<open>c\<close>, or \<open>-1\<close>.\<close>

fun indexOf :: "'a list \<Rightarrow> 'a \<Rightarrow> int" where
  "indexOf [] c = - 1"
| "indexOf (x # xs) c =
     (if x = c then 0
      else (let i = indexOf xs c in if i = - 1 then - 1 else i + 1))"

text \<open>
  \<open>s.substring(a, b)\<close> clamps both arguments to \<open>0 .. length\<close> and swaps them when
  \<open>a > b\<close>; \<open>s.substring(a)\<close> runs to the end; \<open>s.substr(start, len)\<close> counts a negative
  start from the end; \<open>s.slice(start)\<close> likewise.
\<close>

definition substring :: "string \<Rightarrow> int \<Rightarrow> int \<Rightarrow> string" where
  "substring s a b =
     (let n = int (length s);
          a' = max 0 (min a n);
          b' = max 0 (min b n);
          lo = min a' b';
          hi = max a' b'
      in take (nat (hi - lo)) (drop (nat lo) s))"

definition substring_from :: "string \<Rightarrow> int \<Rightarrow> string" where
  "substring_from s a = drop (nat (max 0 a)) s"

definition substr :: "string \<Rightarrow> int \<Rightarrow> int \<Rightarrow> string" where
  "substr s start len =
     (let n = int (length s);
          st = (if start < 0 then max (n + start) 0 else min start n)
      in take (nat len) (drop (nat st) s))"

definition slice_from :: "string \<Rightarrow> int \<Rightarrow> string" where
  "slice_from s start =
     (let n = int (length s);
          st = (if start < 0 then max (n + start) 0 else min start n)
      in drop (nat st) s)"


text \<open>\<open>`${v}`\<close>: a template literal prints an absent value as \<open>undefined\<close>.\<close>

definition to_string :: "string option \<Rightarrow> string" where
  "to_string v = (case v of None \<Rightarrow> ''undefined'' | Some s \<Rightarrow> s)"

section \<open>The Section class\<close>

record Section =
  name :: string
  keysOrder :: "string list"
  lines :: "string list"
  "values" :: "string \<rightharpoonup> string"

definition new_Section :: "string \<Rightarrow> Section" where
  "new_Section n = \<lparr>name = n, keysOrder = [], lines = [], values = Map.empty\<rparr>"

definition Section_set :: "Section \<Rightarrow> string \<Rightarrow> string \<Rightarrow> Section" where
  "Section_set s key new_value =
     (let newKey = (values s key = None);
          s1 = (if newKey then s\<lparr>keysOrder := keysOrder s @ [key]\<rparr> else s)
      in s1\<lparr>values := (values s1)(key \<mapsto> new_value)\<rparr>)"

text \<open>
  \<open>get\<close> returns the value read together with the receiver after the call, so that the
  absence of a side effect is a statement about the model.
\<close>

definition Section_get :: "Section \<Rightarrow> string \<Rightarrow> string \<Rightarrow> string \<times> Section" where
  "Section_get s key default_value =
     (case values s key of
        Some v \<Rightarrow> (v, s)
      | None \<Rightarrow> (default_value, s))"

definition Section_exists :: "Section \<Rightarrow> string \<Rightarrow> bool" where
  "Section_exists s key \<longleftrightarrow> values s key \<noteq> None"



definition Section_getLines :: "Section \<Rightarrow> bool \<Rightarrow> string list" where
  "Section_getLines s remove_comments = filter (\<lambda>line. line \<noteq> [LF] \<and> line \<noteq> []) (lines s)"

section \<open>The IniFile class\<close>

record IniFile =
  sections :: "Section list"

definition new_IniFile :: IniFile where
  "new_IniFile = \<lparr>sections = []\<rparr>"

definition parseLine :: "string \<Rightarrow> (string \<times> string) option" where
  "parseLine line =
     (if line = [] \<or> char_at0 line = Some CHR ''#'' then None
      else (let firstEquals = indexOf line CHR ''='' in
            if firstEquals \<noteq> - 1
            then Some (remove_whitespace (substring line 0 firstEquals),
                       remove_quotes (remove_whitespace (substring_from line (firstEquals + 1))))
            else Some ([], [])))"

text \<open>
  A Section is an object held by reference in the array \<open>sections\<close>. The model names an
  object by its position in the array: \<open>find\<close> yields the position of the first Section
  with the given name, and an update through the reference rewrites that position.
\<close>

fun find_section :: "Section list \<Rightarrow> string \<Rightarrow> nat option" where
  "find_section [] sectionName = None"
| "find_section (s # ss) sectionName =
     (if name s = sectionName then Some 0
      else map_option Suc (find_section ss sectionName))"

definition getSection :: "IniFile \<Rightarrow> string \<Rightarrow> Section option" where
  "getSection d sectionName =
     map_option (\<lambda>i. sections d ! i) (find_section (sections d) sectionName)"

definition update_section :: "IniFile \<Rightarrow> nat \<Rightarrow> (Section \<Rightarrow> Section) \<Rightarrow> IniFile" where
  "update_section d i f = d\<lparr>sections := (sections d)[i := f (sections d ! i)]\<rparr>"

definition getOrCreateSection :: "IniFile \<Rightarrow> string \<Rightarrow> nat \<times> IniFile" where
  "getOrCreateSection d section_name =
     (case find_section (sections d) section_name of
        Some i \<Rightarrow> (i, d)
      | None \<Rightarrow> (length (sections d), d\<lparr>sections := sections d @ [new_Section section_name]\<rparr>))"


definition exists_section :: "IniFile \<Rightarrow> string \<Rightarrow> bool" where
  "exists_section d section_name \<longleftrightarrow> getSection d section_name \<noteq> None"



definition getKeys :: "IniFile \<Rightarrow> string \<Rightarrow> string list" where
  "getKeys d section_name =
     (case getSection d section_name of
        None \<Rightarrow> []
      | Some s \<Rightarrow> keysOrder s)"

definition getLines :: "IniFile \<Rightarrow> string \<Rightarrow> bool \<Rightarrow> string list" where
  "getLines d section_name remove_comments =
     (case getSection d section_name of
        None \<Rightarrow> []
      | Some s \<Rightarrow> Section_getLines s remove_comments)"

subsection \<open>load\<close>

text \<open>
  \<open>load\<close> iterates over the lines that the line reader yields. The state of the loop is
  the receiver, the reference \<open>current_section\<close> (a position in \<open>sections\<close>, \<open>None\<close> for
  \<open>undefined\<close>) and the flag \<open>first_line\<close>.
\<close>

record loop_state =
  this :: IniFile
  current_section :: "nat option"
  first_line :: bool

definition BOM :: string where
  "BOM = [CHR 0xEF, CHR 0xBB, CHR 0xBF]"

definition load_line :: "loop_state \<Rightarrow> string \<Rightarrow> loop_state" where
  "load_line st0 line0 =
     (let line = (if first_line st0 \<and> substr line0 0 3 = BOM then slice_from line0 3 else line0);
          st = st0\<lparr>first_line := False\<rparr>
      in if char_at0 line = Some CHR ''[''
         then (let endpos = indexOf line CHR '']'' in
               if endpos \<noteq> - 1
               then (case getOrCreateSection (this st) (substr line 1 (endpos - 1)) of
                       (i, d) \<Rightarrow> st\<lparr>this := d, current_section := Some i\<rparr>)
               else st)
         else (case current_section st of
                 None \<Rightarrow> st
               | Some i \<Rightarrow>
                   (let kv = parseLine line in
                    if kv = None \<or>
                       (length line \<noteq> 0 \<and> list_ex (\<lambda>val. char_at0 line = Some val) ''$+*'')
                    then st\<lparr>this := update_section (this st) i (\<lambda>s. s\<lparr>lines := lines s @ [line]\<rparr>)\<rparr>
                    else (case kv of
                            Some (key, value) \<Rightarrow>
                              st\<lparr>this := update_section (this st) i (\<lambda>s. Section_set s key value)\<rparr>
                          | None \<Rightarrow> st))))"

definition load_loop :: "IniFile \<Rightarrow> string list \<Rightarrow> loop_state" where
  "load_loop d ls =
     foldl load_line \<lparr>this = d, current_section = None, first_line = True\<rparr> ls"

definition load :: "IniFile \<Rightarrow> string list \<Rightarrow> bool \<Rightarrow> bool \<times> IniFile" where
  "load d ls keep_current_data =
     (let d1 = (if \<not> keep_current_data then d\<lparr>sections := []\<rparr> else d)
      in (True, this (load_loop d1 ls)))"

subsection \<open>save\<close>

text \<open>
  \<open>save\<close> writes to an output stream; the model threads the text written so far through
  the calls of \<open>out.write\<close> and returns it with the result flag.
\<close>

definition out_write :: "string \<Rightarrow> string \<Rightarrow> string" where
  "out_write out chunk = out @ chunk"

definition save_section :: "string \<Rightarrow> Section \<Rightarrow> string" where
  "save_section out0 s =
     (let out = out_write out0 (''['' @ name s @ '']'' @ [LF])
      in if length (keysOrder s) = 0
         then out_write (foldl (\<lambda>out line. out_write out (line @ [LF])) out (lines s)) [LF]
         else out_write
                (foldl (\<lambda>out kvit. out_write out (kvit @ ''='' @ to_string (values s kvit) @ [LF]))
                   out (keysOrder s))
                [LF])"

definition save :: "IniFile \<Rightarrow> bool \<times> string" where
  "save d = (True, foldl save_section [] (sections d))"

section \<open>The data invariant of a Section\<close>

text \<open>
  The keys of the value map are exactly the entries of \<open>keysOrder\<close>, and \<open>keysOrder\<close>
  has no duplicates.
\<close>

definition Section_inv :: "Section \<Rightarrow> bool" where
  "Section_inv s \<longleftrightarrow> dom (values s) = set (keysOrder s) \<and> distinct (keysOrder s)"

definition example_section :: Section where
  "example_section =
     \<lparr>name = ''Core'', keysOrder = [''CPUThread'', ''Empty'', ''Last''], lines = [''# comment''],
      values = [''CPUThread'' \<mapsto> ''True'', ''Empty'' \<mapsto> [], ''Last'' \<mapsto> ''1'']\<rparr>"

section \<open>The written text, in the words of the specification\<close>

text \<open>
  Each Section is written as a block of lines: the header line, then the raw lines when the
  Section has no keys and one \<open>key=value\<close> line per entry of \<open>keysOrder\<close> otherwise, then
  one blank line. The value printed is the stored one. Every line ends with a line feed.
\<close>

definition unlines :: "string list \<Rightarrow> string" where
  "unlines ls = concat (map (\<lambda>l. l @ [LF]) ls)"

definition key_value_line :: "Section \<Rightarrow> string \<Rightarrow> string" where
  "key_value_line s k = k @ ''='' @ to_string (values s k)"

definition section_block :: "Section \<Rightarrow> string list" where
  "section_block s =
     [''['' @ name s @ '']''] @
     (if keysOrder s = [] then lines s else map (key_value_line s) (keysOrder s)) @
     [[]]"

section \<open>The line reader\<close>

text \<open>
  \<open>load\<close> reads its file through the line reader of the runtime, which is not part of
  this repository. Its contract: a line ends at a line feed, at a carriage return followed
  by a line feed, or at a lone carriage return; the terminator is not part of the line; text
  after the last terminator is a line when it is not empty. \<open>after_cr\<close> records that the
  previous character was a carriage return that has already ended a line.
\<close>

fun readline_from :: "bool \<Rightarrow> string \<Rightarrow> string \<Rightarrow> string list" where
  "readline_from after_cr buf [] = (if buf = [] then [] else [buf])"
| "readline_from after_cr buf (c # cs) =
     (if c = LF then (if after_cr then readline_from False buf cs
                      else buf # readline_from False [] cs)
      else if c = CR then buf # readline_from True [] cs
      else readline_from False (buf @ [c]) cs)"

definition readline_lines :: "string \<Rightarrow> string list" where
  "readline_lines text = readline_from False [] text"

section \<open>The classification of input lines, in the words of the specification\<close>

datatype line_kind = Header string | Ignored | Raw | Pair string string

text \<open>
  A line that starts with \<open>[\<close> is a header when a \<open>]\<close> follows, and names the text between
  the two; without a \<open>]\<close> it is ignored. An empty line, a line that starts with \<open>#\<close> and a
  line that starts with \<open>$\<close>, \<open>+\<close> or \<open>*\<close> are raw. Every other line is a key/value pair.
\<close>

definition classify :: "string \<Rightarrow> line_kind" where
  "classify line =
     (case line of
        [] \<Rightarrow> Raw
      | c # rest \<Rightarrow>
          if c = CHR ''['' then
            (if CHR '']'' \<in> set rest then Header (takeWhile (\<lambda>x. x \<noteq> CHR '']'') rest)
             else Ignored)
          else if c \<in> set ''#$+*'' then Raw
          else (case parseLine line of Some (k, v) \<Rightarrow> Pair k v | None \<Rightarrow> Raw))"

text \<open>
  What a classified line does to the document: a header makes its section the current one,
  creating it when needed; a raw line is appended to the raw lines of the current section;
  a pair is set in the current section; without a current section nothing happens.
\<close>

definition apply_line :: "loop_state \<Rightarrow> string \<Rightarrow> loop_state" where
  "apply_line st line =
     (case classify line of
        Header n \<Rightarrow>
          (case getOrCreateSection (this st) n of
             (i, d) \<Rightarrow> st\<lparr>this := d, current_section := Some i\<rparr>)
      | Ignored \<Rightarrow> st
      | Raw \<Rightarrow>
          (case current_section st of
             None \<Rightarrow> st
           | Some i \<Rightarrow> st\<lparr>this := update_section (this st) i (\<lambda>s. s\<lparr>lines := lines s @ [line]\<rparr>)\<rparr>)
      | Pair k v \<Rightarrow>
          (case current_section st of
             None \<Rightarrow> st
           | Some i \<Rightarrow> st\<lparr>this := update_section (this st) i (\<lambda>s. Section_set s k v)\<rparr>))"


text \<open>The byte-order mark is taken off the first line only.\<close>

definition strip_bom :: "string list \<Rightarrow> string list" where
  "strip_bom ls =
     (case ls of
        [] \<Rightarrow> []
      | l # rest \<Rightarrow> (if take 3 l = BOM then drop 3 l else l) # rest)"



text \<open>
  The loop after its first line: the same state, and the name of the current section.
\<close>

definition start_state :: "IniFile \<Rightarrow> loop_state" where
  "start_state d = \<lparr>this = d, current_section = None, first_line = False\<rparr>"





section \<open>Documents reachable through the public interface\<close>


section \<open>Text that survives writing and reading\<close>

text \<open>
  A section name is read back as written when it has no \<open>]\<close> and no line terminator; a
  key when it has no whitespace and no \<open>=\<close> and does not start with \<open>[\<close>, \<open>#\<close>, \<open>$\<close>,
  \<open>+\<close> or \<open>*\<close>; a value when it has no whitespace and no quote character.
\<close>

definition plain_name :: "string \<Rightarrow> bool" where
  "plain_name n \<longleftrightarrow> list_all (\<lambda>c. c \<noteq> CHR '']'' \<and> c \<noteq> LF \<and> c \<noteq> CR) n"

definition plain_key :: "string \<Rightarrow> bool" where
  "plain_key k \<longleftrightarrow>
     list_all (\<lambda>c. \<not> is_whitespace c \<and> c \<noteq> CHR ''='') k \<and>
     list_all (\<lambda>c. c \<notin> set ''[#$+*'') (take 1 k)"

definition plain_value :: "string \<Rightarrow> bool" where
  "plain_value v \<longleftrightarrow> list_all (\<lambda>c. \<not> is_whitespace c \<and> \<not> is_quote c) v"

definition plain_section :: "Section \<Rightarrow> bool" where
  "plain_section s \<longleftrightarrow>
     Section_inv s \<and> keysOrder s \<noteq> [] \<and> lines s = [] \<and> plain_name (name s) \<and>
     list_all (\<lambda>k. plain_key k \<and> plain_value (to_string (values s k))) (keysOrder s)"

section \<open>Example inputs\<close>


definition example_document :: IniFile where
  "example_document =
     \<lparr>sections =
        [\<lparr>name = ''Core'', keysOrder = [''CPUThread''], lines = [''# comment''],
          values = [''CPUThread'' \<mapsto> ''True'']\<rparr>,
         \<lparr>name = ''Gecko_Enabled'', keysOrder = [], lines = [''$SomeCode''],
          values = Map.empty\<rparr>]\<rparr>"

definition plain_document :: IniFile where
  "plain_document =
     \<lparr>sections =
        [\<lparr>name = ''Core'', keysOrder = [''CPUThread'', ''GFXBackend''], lines = [],
          values = [''CPUThread'' \<mapsto> ''True'', ''GFXBackend'' \<mapsto> ''OGL'']\<rparr>,
         \<lparr>name = ''Display'', keysOrder = [''Fullscreen''], lines = [],
          values = [''Fullscreen'' \<mapsto> ''False'']\<rparr>]\<rparr>"

definition awkward_document :: IniFile where
  "awkward_document =
     \<lparr>sections =
        [\<lparr>name = ''Keys'', keysOrder = [''x y'', ''p=q'', ''#c'', ''$d'', ''[e''], lines = [],
          values = [''x y'' \<mapsto> ''1'', ''p=q'' \<mapsto> ''2'', ''#c'' \<mapsto> ''3'', ''$d'' \<mapsto> ''4'',
                    ''[e'' \<mapsto> ''5'']\<rparr>,
         \<lparr>name = ''a]b'', keysOrder = [''k''], lines = [],
          values = [''k'' \<mapsto> [CHR 0x22, CHR ''v'', CHR 0x22]]\<rparr>]\<rparr>"


definition spaced_document :: IniFile where
  "spaced_document =
     \<lparr>sections =
        [\<lparr>name = ''Core'', keysOrder = [''Title''], lines = [],
          values = [''Title'' \<mapsto> ''Super Smash'']\<rparr>]\<rparr>"

section \<open>Facts about the array operations\<close>

lemma indexOf_ge: "- 1 \<le> indexOf xs c"
  by (induction xs) (auto simp: Let_def)

lemma indexOf_absent: "indexOf xs c = - 1 \<longleftrightarrow> c \<notin> set xs"
proof (induction xs)
  case Nil
  show ?case by simp
next
  case (Cons x xs)
  have "- 1 \<le> indexOf xs c" by (rule indexOf_ge)
  with Cons show ?case by (auto simp: Let_def)
qed

lemma indexOf_present:
  "c \<in> set xs \<Longrightarrow> indexOf xs c = int (length (takeWhile (\<lambda>x. x \<noteq> c) xs))"
proof (induction xs)
  case Nil
  then show ?case by simp
next
  case (Cons x xs)
  show ?case
  proof (cases "x = c")
    case True
    then show ?thesis by simp
  next
    case False
    with Cons.prems have in_tl: "c \<in> set xs" by simp
    then have "indexOf xs c \<noteq> - 1" by (simp add: indexOf_absent)
    with False Cons.IH [OF in_tl] show ?thesis by (simp add: Let_def)
  qed
qed




section \<open>Section.get\<close>

text \<open>
  Claim C10. A key stored with the empty string as its value is read as the empty string,
  not as the default. The result follows the default argument, whatever it is, exactly when
  the key is absent from the value map. The receiver is the same after the call.
\<close>

theorem Section_get_spec:
  "(values s key = Some [] \<longrightarrow> fst (Section_get s key d) = []) \<and>
   ((\<forall>d'. fst (Section_get s key d') = d') \<longleftrightarrow> values s key = None) \<and>
   snd (Section_get s key d) = s"
proof (cases "values s key")
  case None
  then show ?thesis by (simp add: Section_get_def)
next
  case (Some v)
  have "fst (Section_get s key (CHR ''x'' # v)) \<noteq> CHR ''x'' # v"
    using Some by (simp add: Section_get_def)
  then have "\<not> (\<forall>d'. fst (Section_get s key d') = d')" by blast
  with Some show ?thesis by (simp add: Section_get_def)
qed

theorem Section_get_spec_witness:
  "values example_section ''Empty'' = Some [] \<and>
   fst (Section_get example_section ''Empty'' ''default'') = []"
  using Section_get_spec [of example_section "''Empty''" "''default''"]
  by (simp add: example_section_def)

section \<open>Section.set\<close>



section \<open>Section.delete\<close>



section \<open>parseLine\<close>

lemma parseLine_eq:
  "parseLine line =
    (if line = [] \<or> take 1 line = ''#'' then None
     else if CHR ''='' \<in> set line
       then Some (filter (\<lambda>c. \<not> is_whitespace c) (takeWhile (\<lambda>c. c \<noteq> CHR ''='') line),
                  filter (\<lambda>c. \<not> is_whitespace c \<and> \<not> is_quote c)
                    (drop 1 (dropWhile (\<lambda>c. c \<noteq> CHR ''='') line)))
       else Some ([], []))"
proof (cases "line = [] \<or> take 1 line = ''#''")
  case True
  then show ?thesis by (cases line) (auto simp: parseLine_def char_at0_def)
next
  case False
  then have no_comment: "\<not> (line = [] \<or> char_at0 line = Some CHR ''#'')"
    by (cases line) (auto simp: char_at0_def)
  show ?thesis
  proof (cases "CHR ''='' \<in> set line")
    case absent: False
    then have "indexOf line CHR ''='' = - 1" by (simp add: indexOf_absent)
    with False no_comment absent show ?thesis by (simp add: parseLine_def)
  next
    case present: True
    let ?n = "length (takeWhile (\<lambda>c. c \<noteq> CHR ''='') line)"
    have idx: "indexOf line CHR ''='' = int ?n" using present by (rule indexOf_present)
    have le: "?n \<le> length line" by (rule length_takeWhile_le)
    have "substring line 0 (int ?n) = take ?n line"
      using le by (simp add: substring_def Let_def min_def max_def)
    also have "\<dots> = takeWhile (\<lambda>c. c \<noteq> CHR ''='') line"
      by (rule takeWhile_eq_take [symmetric])
    finally have key: "substring line 0 (int ?n) = takeWhile (\<lambda>c. c \<noteq> CHR ''='') line" .
    have "nat (max 0 (int ?n + 1)) = Suc ?n" by simp
    then have "substring_from line (int ?n + 1) = drop (Suc ?n) line"
      by (simp only: substring_from_def)
    also have "\<dots> = drop 1 (drop ?n line)" by simp
    also have "\<dots> = drop 1 (dropWhile (\<lambda>c. c \<noteq> CHR ''='') line)"
      by (simp only: dropWhile_eq_drop)
    finally have val: "substring_from line (int ?n + 1) =
        drop 1 (dropWhile (\<lambda>c. c \<noteq> CHR ''='') line)" .
    have flt: "remove_quotes (remove_whitespace xs) =
        filter (\<lambda>c. \<not> is_whitespace c \<and> \<not> is_quote c) xs" for xs
      by (induction xs) (simp_all add: remove_quotes_def remove_whitespace_def)
    have "parseLine line =
        Some (remove_whitespace (substring line 0 (int ?n)),
              remove_quotes (remove_whitespace (substring_from line (int ?n + 1))))"
      using no_comment idx by (simp add: parseLine_def Let_def)
    also have "\<dots> = Some (filter (\<lambda>c. \<not> is_whitespace c) (takeWhile (\<lambda>c. c \<noteq> CHR ''='') line),
        filter (\<lambda>c. \<not> is_whitespace c \<and> \<not> is_quote c)
          (drop 1 (dropWhile (\<lambda>c. c \<noteq> CHR ''='') line)))"
      by (simp only: key val flt) (simp add: remove_whitespace_def)
    finally show ?thesis using False present by simp
  qed
qed

text \<open>
  Claim C3. \<open>parseLine\<close> returns the absent pair exactly when the line is empty or its
  first character is \<open>#\<close>. Otherwise, when the line contains \<open>=\<close>, the key is the text
  before the first \<open>=\<close> with all whitespace removed and the value is the text after the
  first \<open>=\<close> with all whitespace and both quote characters removed; when the line has no
  \<open>=\<close>, the result is the present pair of two empty strings.
\<close>

theorem parseLine_spec:
  "parseLine line =
    (if line = [] \<or> take 1 line = ''#'' then None
     else if CHR ''='' \<in> set line
       then Some (filter (\<lambda>c. \<not> is_whitespace c) (takeWhile (\<lambda>c. c \<noteq> CHR ''='') line),
                  filter (\<lambda>c. \<not> is_whitespace c \<and> \<not> is_quote c)
                    (drop 1 (dropWhile (\<lambda>c. c \<noteq> CHR ''='') line)))
       else Some ([], []))"
  by (rule parseLine_eq)

section \<open>save\<close>

lemma foldl_out_write:
  "foldl (\<lambda>out x. out_write out (f x)) out xs = out @ concat (map f xs)"
  by (induction xs arbitrary: out) (simp_all add: out_write_def)

lemma save_section_unfold:
  "save_section out s =
     out @ ''['' @ name s @ '']'' @ [LF] @
     (if keysOrder s = [] then concat (map (\<lambda>line. line @ [LF]) (lines s))
      else concat (map (\<lambda>kvit. kvit @ ''='' @ to_string (values s kvit) @ [LF]) (keysOrder s))) @
     [LF]"
  unfolding save_section_def Let_def foldl_out_write
  by (simp add: out_write_def)

lemma save_section_block: "save_section out s = out @ unlines (section_block s)"
proof (cases "keysOrder s = []")
  case True
  then show ?thesis
    by (simp add: save_section_unfold section_block_def unlines_def)
next
  case False
  have "concat (map (\<lambda>kvit. kvit @ ''='' @ to_string (values s kvit) @ [LF]) ks) =
      concat (map (\<lambda>l. l @ [LF]) (map (key_value_line s) ks))" for ks
    by (induction ks) (simp_all add: key_value_line_def)
  with False show ?thesis
    by (simp add: save_section_unfold section_block_def unlines_def)
qed

lemma unlines_append: "unlines (xs @ ys) = unlines xs @ unlines ys"
  by (simp add: unlines_def)

lemma foldl_save_section:
  "foldl save_section out ss = out @ unlines (concat (map section_block ss))"
  by (induction ss arbitrary: out) (simp_all add: save_section_block unlines_append unlines_def)

lemma save_blocks: "save d = (True, unlines (concat (map section_block (sections d))))"
  by (simp add: save_def foldl_save_section)

text \<open>
  Claim C2. \<open>save\<close> writes, for every Section in order, the header line, then the raw
  lines when \<open>keysOrder\<close> is empty and otherwise one \<open>key=value\<close> line for every key of
  \<open>keysOrder\<close> in order with the stored value, then one blank line. With a key present the
  written text does not depend on the raw lines, so none of them is written; with neither
  keys nor raw lines the header and the blank line are still written.
\<close>

theorem save_spec:
  "save d = (True, unlines (concat (map section_block (sections d)))) \<and>
   (keysOrder s = [] \<longrightarrow>
      section_block s = [''['' @ name s @ '']''] @ lines s @ [[]]) \<and>
   (keysOrder s \<noteq> [] \<longrightarrow>
      section_block s =
        [''['' @ name s @ '']''] @ map (\<lambda>k. k @ ''='' @ to_string (values s k)) (keysOrder s) @ [[]] \<and>
      section_block (s\<lparr>lines := ls\<rparr>) = section_block s) \<and>
   (\<forall>k v. values s k = Some v \<longrightarrow> key_value_line s k = k @ ''='' @ v) \<and>
   (keysOrder s = [] \<and> lines s = [] \<longrightarrow> unlines (section_block s) = ''['' @ name s @ '']'' @ [LF, LF])"
proof -
  have "map (key_value_line s) ks = map (\<lambda>k. k @ ''='' @ to_string (values s k)) ks" for ks
    by (simp add: key_value_line_def)
  moreover have "map (key_value_line (s\<lparr>lines := ls\<rparr>)) ks = map (key_value_line s) ks" for ks
    by (simp add: key_value_line_def)
  ultimately show ?thesis
    by (simp add: save_blocks section_block_def key_value_line_def to_string_def unlines_def)
qed

theorem save_spec_witness:
  "keysOrder (sections example_document ! 0) \<noteq> [] \<and>
   lines (sections example_document ! 0) \<noteq> [] \<and>
   keysOrder (sections example_document ! 1) = [] \<and>
   values (sections example_document ! 0) ''CPUThread'' = Some ''True'' \<and>
   save example_document = (True,
     ''[Core]'' @ [LF] @ ''CPUThread=True'' @ [LF] @ [LF] @
     ''[Gecko_Enabled]'' @ [LF] @ ''$SomeCode'' @ [LF] @ [LF]) \<and>
   keysOrder (new_Section ''Empty'') = [] \<and> lines (new_Section ''Empty'') = [] \<and>
   save \<lparr>sections = [new_Section ''Empty'']\<rparr> = (True, ''[Empty]'' @ [LF] @ [LF])"
  using save_spec [of example_document "sections example_document ! 0" "[]"]
    save_spec [of example_document "sections example_document ! 1" "[]"]
    save_spec [of "\<lparr>sections = [new_Section ''Empty'']\<rparr>" "new_Section ''Empty''" "[]"]
  by (simp add: example_document_def new_Section_def unlines_def to_string_def)

section \<open>One step of the loading loop\<close>

lemma substr_0_3: "substr line 0 3 = take 3 line"
  by (simp add: substr_def Let_def)

lemma slice_from_3: "slice_from line 3 = drop 3 line"
  by (cases "3 \<le> length line") (simp_all add: slice_from_def Let_def min_def)

lemma header_name_substr:
  assumes "CHR '']'' \<in> set rest"
  shows "substr (CHR ''['' # rest) 1 (indexOf (CHR ''['' # rest) CHR '']'' - 1) =
    takeWhile (\<lambda>x. x \<noteq> CHR '']'') rest"
proof -
  let ?n = "length (takeWhile (\<lambda>x. x \<noteq> CHR '']'') rest)"
  have "indexOf rest CHR '']'' = int ?n" using assms by (rule indexOf_present)
  then have "indexOf (CHR ''['' # rest) CHR '']'' - 1 = int ?n" by (simp add: Let_def)
  moreover have "substr (CHR ''['' # rest) 1 (int ?n) = take ?n rest"
    by (simp add: substr_def Let_def min_def)
  moreover have "take ?n rest = takeWhile (\<lambda>x. x \<noteq> CHR '']'') rest"
    by (rule takeWhile_eq_take [symmetric])
  ultimately show ?thesis by simp
qed

lemma parseLine_None: "parseLine line = None \<longleftrightarrow> line = [] \<or> char_at0 line = Some CHR ''#''"
  by (simp add: parseLine_def Let_def)

lemma load_line_apply:
  "load_line st line0 =
     apply_line (st\<lparr>first_line := False\<rparr>)
       (if first_line st \<and> take 3 line0 = BOM then drop 3 line0 else line0)"
proof -
  define line where "line = (if first_line st \<and> take 3 line0 = BOM then drop 3 line0 else line0)"
  define st1 where "st1 = st\<lparr>first_line := False\<rparr>"
  have unfold: "load_line st line0 =
     (if char_at0 line = Some CHR ''[''
         then (let endpos = indexOf line CHR '']'' in
               if endpos \<noteq> - 1
               then (case getOrCreateSection (this st1) (substr line 1 (endpos - 1)) of
                       (i, d) \<Rightarrow> st1\<lparr>this := d, current_section := Some i\<rparr>)
               else st1)
         else (case current_section st1 of
                 None \<Rightarrow> st1
               | Some i \<Rightarrow>
                   (let kv = parseLine line in
                    if kv = None \<or>
                       (length line \<noteq> 0 \<and> list_ex (\<lambda>val. char_at0 line = Some val) ''$+*'')
                    then st1\<lparr>this := update_section (this st1) i (\<lambda>s. s\<lparr>lines := lines s @ [line]\<rparr>)\<rparr>
                    else (case kv of
                            Some (key, value) \<Rightarrow>
                              st1\<lparr>this := update_section (this st1) i (\<lambda>s. Section_set s key value)\<rparr>
                          | None \<Rightarrow> st1))))"
    unfolding load_line_def line_def st1_def substr_0_3 slice_from_3 Let_def ..
  have "\<dots> = apply_line st1 line"
  proof (cases line)
    case Nil
    then show ?thesis
      by (simp add: apply_line_def classify_def char_at0_def parseLine_def split: option.splits)
  next
    case (Cons c rest)
    show ?thesis
    proof (cases "c = CHR ''[''")
      case True
      show ?thesis
      proof (cases "CHR '']'' \<in> set rest")
        case closing: True
        then have "CHR '']'' \<in> set line" using Cons by simp
        then have "indexOf line CHR '']'' \<noteq> - 1"
          unfolding indexOf_absent by simp
        moreover have "substr line 1 (indexOf line CHR '']'' - 1) =
            takeWhile (\<lambda>x. x \<noteq> CHR '']'') rest"
          using header_name_substr [OF closing] Cons True by simp
        ultimately show ?thesis
          using Cons True closing by (simp add: apply_line_def classify_def char_at0_def Let_def)
      next
        case False
        then have "CHR '']'' \<notin> set line" using Cons True by simp
        then have "indexOf line CHR '']'' = - 1"
          unfolding indexOf_absent .
        then show ?thesis
          using Cons True False by (simp add: apply_line_def classify_def char_at0_def Let_def)
      qed
    next
      case False
      show ?thesis
      proof (cases "c \<in> set ''#$+*''")
        case True
        then have "parseLine line = None \<or>
            (length line \<noteq> 0 \<and> list_ex (\<lambda>val. char_at0 line = Some val) ''$+*'')"
          using Cons by (auto simp: parseLine_None char_at0_def)
        then show ?thesis
          using Cons False True
          by (simp add: apply_line_def classify_def char_at0_def Let_def split: option.splits)
      next
        case notraw: False
        then have "\<not> (parseLine line = None \<or>
            (length line \<noteq> 0 \<and> list_ex (\<lambda>val. char_at0 line = Some val) ''$+*''))"
          using Cons by (auto simp: parseLine_None char_at0_def)
        moreover from this obtain k v where "parseLine line = Some (k, v)" by auto
        ultimately show ?thesis
          using Cons False notraw
          by (simp add: apply_line_def classify_def char_at0_def Let_def split: option.splits)
      qed
    qed
  qed
  with unfold show ?thesis by (simp add: line_def st1_def)
qed


section \<open>Invariants of the loading loop\<close>

lemma find_section_less: "find_section ss n = Some i \<Longrightarrow> i < length ss"
  by (induction ss arbitrary: i) (auto split: if_splits)


lemma find_section_None: "find_section ss n = None \<longleftrightarrow> n \<notin> name ` set ss"
  by (induction ss) auto

lemma length_update_section [simp]:
  "length (sections (update_section d i f)) = length (sections d)"
  by (simp add: update_section_def)









section \<open>Raw lines during load\<close>



section \<open>The data invariant is preserved\<close>



















section \<open>The loop over classified lines\<close>

lemma first_line_apply_line [simp]: "first_line (apply_line st line) = first_line st"
  by (simp add: apply_line_def split: line_kind.splits option.splits prod.splits)

lemma load_line_later:
  assumes "\<not> first_line st"
  shows "load_line st line = apply_line st line"
proof -
  from assms have same: "st\<lparr>first_line := False\<rparr> = st" by simp
  from assms show ?thesis by (simp add: load_line_apply same)
qed

lemma foldl_load_line_later:
  "\<not> first_line st \<Longrightarrow> foldl load_line st ls = foldl apply_line st ls"
  by (induction ls arbitrary: st) (simp_all add: load_line_later)

lemma load_loop_strip_bom:
  "this (load_loop d ls) = this (foldl apply_line (start_state d) (strip_bom ls))"
proof (cases ls)
  case Nil
  then show ?thesis by (simp add: load_loop_def strip_bom_def start_state_def)
next
  case (Cons l rest)
  let ?l = "if take 3 l = BOM then drop 3 l else l"
  have "load_line \<lparr>this = d, current_section = None, first_line = True\<rparr> l =
      apply_line (start_state d) ?l"
    by (simp add: load_line_apply start_state_def)
  moreover have "\<not> first_line (apply_line (start_state d) ?l)"
    by (simp add: start_state_def)
  ultimately show ?thesis
    using Cons by (simp add: load_loop_def strip_bom_def foldl_load_line_later)
qed

lemma load_True: "snd (load d ls True) = this (foldl apply_line (start_state d) (strip_bom ls))"
  by (simp add: load_def load_loop_strip_bom)

lemma load_False: "snd (load d ls False) = snd (load new_IniFile ls True)"
proof -
  have "d\<lparr>sections := []\<rparr> = new_IniFile" by (cases d) (simp add: new_IniFile_def)
  then show ?thesis by (simp add: load_def)
qed

section \<open>Section names during load\<close>






section \<open>Sections that the source does not mention\<close>





section \<open>The values after load\<close>

lemma find_section_cong:
  "map name ss = map name ss' \<Longrightarrow> find_section ss n = find_section ss' n"
proof (induction ss arbitrary: ss')
  case Nil
  then show ?case by simp
next
  case (Cons s ss)
  then obtain s' rest where ss': "ss' = s' # rest" by (cases ss') auto
  with Cons.prems have "name s = name s'" and "map name ss = map name rest" by simp_all
  with Cons.IH [of rest] ss' show ?case by simp
qed










section \<open>load and the data already present\<close>


lemmas load_eval_defs =
  load_def load_loop_def load_line_apply apply_line_def classify_def BOM_def
  new_IniFile_def getOrCreateSection_def new_Section_def update_section_def
  Section_set_def parseLine_def char_at0_def Let_def substring_def substring_from_def
  remove_whitespace_def remove_quotes_def is_whitespace_def is_quote_def


section \<open>Reading back the written lines\<close>

lemma readline_from_line:
  assumes "LF \<notin> set l" and "CR \<notin> set l"
  shows "readline_from False buf (l @ LF # rest) = (buf @ l) # readline_from False [] rest"
  using assms by (induction l arbitrary: buf) auto

lemma readline_lines_unlines:
  assumes "\<forall>l\<in>set ls. LF \<notin> set l \<and> CR \<notin> set l"
  shows "readline_lines (unlines ls) = ls"
proof -
  from assms have "readline_from False [] (unlines ls) = ls"
  proof (induction ls)
    case Nil
    show ?case by (simp add: unlines_def)
  next
    case (Cons l ls)
    then have "readline_from False [] (l @ LF # unlines ls) = ([] @ l) # readline_from False [] (unlines ls)"
      by (intro readline_from_line) simp_all
    with Cons show ?case by (simp add: unlines_def)
  qed
  then show ?thesis by (simp add: readline_lines_def)
qed

lemma whitespace_LF_CR: "is_whitespace LF" "is_whitespace CR"
  by (simp_all add: is_whitespace_def LF_def CR_def)

lemma plain_section_lines:
  assumes "plain_section s"
  shows "\<forall>l\<in>set (section_block s). LF \<notin> set l \<and> CR \<notin> set l"
proof -
  from assms have n: "LF \<notin> set (name s)" "CR \<notin> set (name s)"
    and keys: "keysOrder s \<noteq> []"
    by (auto simp: plain_section_def plain_name_def list_all_iff)
  have "LF \<notin> set (key_value_line s k) \<and> CR \<notin> set (key_value_line s k)"
    if "k \<in> set (keysOrder s)" for k
  proof -
    from assms that have "plain_key k" and "plain_value (to_string (values s k))"
      by (auto simp: plain_section_def list_all_iff)
    then have "\<forall>c\<in>set k. \<not> is_whitespace c" and "\<forall>c\<in>set (to_string (values s k)). \<not> is_whitespace c"
      by (auto simp: plain_key_def plain_value_def list_all_iff)
    with whitespace_LF_CR show ?thesis
      by (auto simp: key_value_line_def LF_def CR_def)
  qed
  with n keys show ?thesis by (auto simp: section_block_def LF_def CR_def)
qed

section \<open>The class of a written line\<close>

lemma classify_header:
  assumes "plain_name n"
  shows "classify (CHR ''['' # n @ '']'') = Header n"
proof -
  from assms have "\<forall>c\<in>set n. c \<noteq> CHR '']''" by (auto simp: plain_name_def list_all_iff)
  then have "takeWhile (\<lambda>x. x \<noteq> CHR '']'') (n @ '']'') = n"
    by (simp add: takeWhile_tail)
  then show ?thesis by (simp add: classify_def)
qed

lemma classify_blank: "classify [] = Raw"
  by (simp add: classify_def)

lemma classify_key_value:
  assumes "plain_key k" and "plain_value v"
  shows "classify (k @ CHR ''='' # v) = Pair k v"
proof -
  define line where "line = k @ ''='' @ v"
  from assms(1) have k_ws: "\<forall>c\<in>set k. \<not> is_whitespace c" and k_eq: "\<forall>c\<in>set k. c \<noteq> CHR ''=''"
    and k_hd: "\<forall>c\<in>set (take 1 k). c \<notin> set ''[#$+*''"
    by (auto simp: plain_key_def list_all_iff)
  from assms(2) have v_ok: "\<forall>c\<in>set v. \<not> is_whitespace c \<and> \<not> is_quote c"
    by (auto simp: plain_value_def list_all_iff)
  obtain c rest where line: "line = c # rest" and c: "c \<notin> set ''[#$+*''"
  proof (cases k)
    case Nil
    then have "line = CHR ''='' # v" and "CHR ''='' \<notin> set ''[#$+*''"
      by (simp_all add: line_def)
    then show ?thesis by (rule that)
  next
    case (Cons a k')
    with k_hd have "line = a # (k' @ ''='' @ v)" and "a \<notin> set ''[#$+*''"
      by (simp_all add: line_def)
    then show ?thesis by (rule that)
  qed
  have tw: "takeWhile (\<lambda>c. c \<noteq> CHR ''='') line = k"
    using k_eq by (simp add: line_def takeWhile_tail)
  have dw: "drop 1 (dropWhile (\<lambda>c. c \<noteq> CHR ''='') line) = v"
    using k_eq by (simp add: line_def dropWhile_append3)
  have fk: "filter (\<lambda>c. \<not> is_whitespace c) k = k" using k_ws by (simp add: filter_id_conv)
  have fv: "filter (\<lambda>c. \<not> is_whitespace c \<and> \<not> is_quote c) v = v"
    using v_ok by (simp add: filter_id_conv)
  have no_comment: "\<not> (line = [] \<or> take 1 line = ''#'')" using c line by auto
  have has_eq: "CHR ''='' \<in> set line" by (simp add: line_def)
  have "parseLine line = Some (k, v)"
    by (simp only: parseLine_eq [of line] no_comment has_eq tw dw fk fv if_False if_True)
  with c line have "classify line = Pair k v" by (simp add: classify_def)
  then show ?thesis by (simp add: line_def)
qed


section \<open>Loading the block of one Section\<close>

lemma Section_set_new_key:
  "values s k = None \<Longrightarrow>
   Section_set s k v = s\<lparr>keysOrder := keysOrder s @ [k], values := (values s)(k \<mapsto> v)\<rparr>"
  by (simp add: Section_set_def)

lemma foldl_Section_set:
  assumes "distinct ks" and "\<forall>k\<in>set ks. values s0 k = None"
  shows "name (foldl (\<lambda>s k. Section_set s k (f k)) s0 ks) = name s0 \<and>
    lines (foldl (\<lambda>s k. Section_set s k (f k)) s0 ks) = lines s0 \<and>
    keysOrder (foldl (\<lambda>s k. Section_set s k (f k)) s0 ks) = keysOrder s0 @ ks \<and>
    values (foldl (\<lambda>s k. Section_set s k (f k)) s0 ks) =
      (\<lambda>k. if k \<in> set ks then Some (f k) else values s0 k)"
  using assms
proof (induction ks arbitrary: s0)
  case Nil
  then show ?case by simp
next
  case (Cons k ks)
  define s1 where "s1 = Section_set s0 k (f k)"
  from Cons.prems have new: "values s0 k = None" by simp
  then have s1: "name s1 = name s0" "lines s1 = lines s0" "keysOrder s1 = keysOrder s0 @ [k]"
    "values s1 = (values s0)(k \<mapsto> f k)"
    by (simp_all add: s1_def Section_set_new_key)
  from Cons.prems have "distinct ks" and "\<forall>k'\<in>set ks. values s1 k' = None"
    by (auto simp: s1)
  from Cons.IH [OF this]
  have ih: "name (foldl (\<lambda>s k. Section_set s k (f k)) s1 ks) = name s1"
    "lines (foldl (\<lambda>s k. Section_set s k (f k)) s1 ks) = lines s1"
    "keysOrder (foldl (\<lambda>s k. Section_set s k (f k)) s1 ks) = keysOrder s1 @ ks"
    "values (foldl (\<lambda>s k. Section_set s k (f k)) s1 ks) =
      (\<lambda>k. if k \<in> set ks then Some (f k) else values s1 k)"
    by simp_all
  have "(\<lambda>k'. if k' \<in> set ks then Some (f k') else values s1 k') =
      (\<lambda>k'. if k' \<in> set (k # ks) then Some (f k') else values s0 k')"
    by (auto simp: s1 intro!: ext)
  with ih s1 show ?case by (simp add: s1_def [symmetric])
qed

lemma update_section_twice:
  "update_section (update_section d i f) i g = update_section d i (\<lambda>s. g (f s))"
proof (cases "i < length (sections d)")
  case True
  then show ?thesis by (simp add: update_section_def)
next
  case False
  then have "(sections d)[i := x] = sections d" for x
    by (intro list_update_beyond) simp
  then show ?thesis by (simp add: update_section_def)
qed

lemma update_section_id: "update_section d i (\<lambda>s. s) = d"
  by (simp add: update_section_def)

lemma foldl_apply_line_pairs:
  assumes "current_section st = Some i"
    and "\<forall>k\<in>set ks. classify (line_of k) = Pair k (f k)"
  shows "foldl apply_line st (map line_of ks) =
    st\<lparr>this := update_section (this st) i (\<lambda>s. foldl (\<lambda>s k. Section_set s k (f k)) s ks)\<rparr>"
  using assms
proof (induction ks arbitrary: st)
  case Nil
  then show ?case by (simp add: update_section_id)
next
  case (Cons k ks)
  let ?st1 = "st\<lparr>this := update_section (this st) i (\<lambda>s. Section_set s k (f k))\<rparr>"
  from Cons.prems have step: "apply_line st (line_of k) = ?st1"
    by (simp add: apply_line_def)
  have "current_section ?st1 = Some i" using Cons.prems(1) by simp
  moreover have "\<forall>k\<in>set ks. classify (line_of k) = Pair k (f k)" using Cons.prems(2) by simp
  ultimately have "foldl apply_line ?st1 (map line_of ks) =
      ?st1\<lparr>this := update_section (this ?st1) i (\<lambda>s. foldl (\<lambda>s k. Section_set s k (f k)) s ks)\<rparr>"
    by (rule Cons.IH)
  with step show ?case by (simp add: update_section_twice)
qed

lemma update_section_last:
  "update_section (d\<lparr>sections := ss @ [s]\<rparr>) (length ss) f = d\<lparr>sections := ss @ [f s]\<rparr>"
  by (simp add: update_section_def)

lemma plain_section_values:
  assumes "plain_section s"
  shows "(\<lambda>k. if k \<in> set (keysOrder s) then Some (to_string (values s k)) else None) = values s"
proof
  fix k
  from assms have "dom (values s) = set (keysOrder s)"
    by (simp add: plain_section_def Section_inv_def)
  then show "(if k \<in> set (keysOrder s) then Some (to_string (values s k)) else None) = values s k"
    by (cases "values s k") (auto simp: to_string_def)
qed

lemma load_section_block:
  assumes plain: "plain_section s"
    and fresh: "name s \<notin> name ` set (sections (this st))"
  shows "foldl apply_line st (section_block s) =
    st\<lparr>this := (this st)\<lparr>sections := sections (this st) @ [s\<lparr>lines := [[]]\<rparr>]\<rparr>,
       current_section := Some (length (sections (this st)))\<rparr>"
proof -
  let ?ss = "sections (this st)"
  let ?ks = "keysOrder s"
  let ?f = "\<lambda>k. to_string (values s k)"
  from plain have keys: "?ks \<noteq> []" and dist: "distinct ?ks" and pn: "plain_name (name s)"
    and pk: "\<forall>k\<in>set ?ks. plain_key k \<and> plain_value (?f k)"
    by (auto simp: plain_section_def Section_inv_def list_all_iff)
  have block: "section_block s =
      (''['' @ name s @ '']'') # map (key_value_line s) ?ks @ [[]]"
    using keys by (simp add: section_block_def)
  define st1 where "st1 = st\<lparr>this := (this st)\<lparr>sections := ?ss @ [new_Section (name s)]\<rparr>,
      current_section := Some (length ?ss)\<rparr>"
  have "find_section ?ss (name s) = None" using fresh by (simp add: find_section_None)
  then have header: "apply_line st (''['' @ name s @ '']'') = st1"
    by (simp add: apply_line_def classify_header [OF pn] getOrCreateSection_def st1_def)
  have cur1: "current_section st1 = Some (length ?ss)" by (simp add: st1_def)
  have "\<forall>k\<in>set ?ks. classify (key_value_line s k) = Pair k (?f k)"
    using pk by (auto simp: key_value_line_def intro: classify_key_value)
  from foldl_apply_line_pairs [OF cur1 this]
  have pairs: "foldl apply_line st1 (map (key_value_line s) ?ks) =
      st1\<lparr>this := update_section (this st1) (length ?ss)
        (\<lambda>s'. foldl (\<lambda>s' k. Section_set s' k (?f k)) s' ?ks)\<rparr>" .
  define s0 where "s0 = new_Section (name s)"
  have s0: "name s0 = name s" "lines s0 = []" "keysOrder s0 = []" "values s0 = (\<lambda>k. None)"
    by (simp_all add: s0_def new_Section_def)
  have "\<forall>k\<in>set ?ks. values s0 k = None" by (simp add: s0)
  from foldl_Section_set [OF dist this, of ?f]
  have fields: "name (foldl (\<lambda>s' k. Section_set s' k (?f k)) s0 ?ks) = name s"
    "lines (foldl (\<lambda>s' k. Section_set s' k (?f k)) s0 ?ks) = []"
    "keysOrder (foldl (\<lambda>s' k. Section_set s' k (?f k)) s0 ?ks) = ?ks"
    "values (foldl (\<lambda>s' k. Section_set s' k (?f k)) s0 ?ks) =
      (\<lambda>k. if k \<in> set ?ks then Some (?f k) else None)"
    by (simp_all add: s0 cong: if_cong)
  have sec: "foldl (\<lambda>s' k. Section_set s' k (?f k)) (new_Section (name s)) ?ks =
      s\<lparr>lines := []\<rparr>"
    unfolding s0_def [symmetric]
    by (rule Section.equality) (simp_all add: fields plain_section_values [OF plain])
  define st2 where "st2 = st\<lparr>this := (this st)\<lparr>sections := ?ss @ [s\<lparr>lines := []\<rparr>]\<rparr>,
      current_section := Some (length ?ss)\<rparr>"
  have pairs2: "foldl apply_line st1 (map (key_value_line s) ?ks) = st2"
    unfolding pairs by (simp add: st1_def st2_def update_section_last sec)
  have blank: "apply_line st2 [] =
      st\<lparr>this := (this st)\<lparr>sections := ?ss @ [s\<lparr>lines := [[]]\<rparr>]\<rparr>,
         current_section := Some (length ?ss)\<rparr>"
    by (simp add: apply_line_def classify_blank st2_def update_section_last)
  show ?thesis
    by (simp only: block foldl_Cons foldl_append foldl_Nil header pairs2 blank)
qed

lemma load_section_blocks:
  assumes "\<forall>s\<in>set ss. plain_section s"
    and "distinct (map name ss)"
    and "name ` set ss \<inter> name ` set (sections (this st)) = {}"
  shows "sections (this (foldl apply_line st (concat (map section_block ss)))) =
    sections (this st) @ map (\<lambda>s. s\<lparr>lines := [[]]\<rparr>) ss"
  using assms
proof (induction ss arbitrary: st)
  case Nil
  then show ?case by simp
next
  case (Cons s ss)
  let ?st1 = "st\<lparr>this := (this st)\<lparr>sections := sections (this st) @ [s\<lparr>lines := [[]]\<rparr>]\<rparr>,
      current_section := Some (length (sections (this st)))\<rparr>"
  from Cons.prems have "plain_section s" and "name s \<notin> name ` set (sections (this st))"
    by auto
  then have block: "foldl apply_line st (section_block s) = ?st1"
    by (rule load_section_block)
  from Cons.prems have "\<forall>s\<in>set ss. plain_section s" and "distinct (map name ss)"
    and "name ` set ss \<inter> name ` set (sections (this ?st1)) = {}"
    by auto
  from Cons.IH [OF this] block show ?case by simp
qed

lemma strip_bom_blocks:
  "strip_bom (concat (map section_block ss)) = concat (map section_block ss)"
proof (cases ss)
  case Nil
  then show ?thesis by (simp add: strip_bom_def)
next
  case (Cons s rest)
  then show ?thesis by (simp add: strip_bom_def section_block_def BOM_def)
qed

lemma save_load_sections:
  assumes "distinct (map name (sections d))"
    and "\<forall>s\<in>set (sections d). plain_section s"
  shows "sections (snd (load new_IniFile (readline_lines (snd (save d))) keep)) =
    map (\<lambda>s. s\<lparr>lines := [[]]\<rparr>) (sections d)"
proof -
  let ?blocks = "concat (map section_block (sections d))"
  have "\<forall>l\<in>set ?blocks. LF \<notin> set l \<and> CR \<notin> set l"
    using assms(2) plain_section_lines by auto
  then have read: "readline_lines (snd (save d)) = ?blocks"
    by (simp add: save_blocks readline_lines_unlines)
  have "snd (load new_IniFile ?blocks keep) = snd (load new_IniFile ?blocks True)"
    by (cases keep) (simp_all add: load_False)
  also have "\<dots> = this (foldl apply_line (start_state new_IniFile) ?blocks)"
    by (simp add: load_True strip_bom_blocks)
  finally have "sections (snd (load new_IniFile ?blocks keep)) =
      sections (this (foldl apply_line (start_state new_IniFile) ?blocks))" by simp
  also have "\<dots> = sections (this (start_state new_IniFile)) @
      map (\<lambda>s. s\<lparr>lines := [[]]\<rparr>) (sections d)"
    using assms by (intro load_section_blocks) (simp_all add: start_state_def new_IniFile_def)
  finally show ?thesis by (simp add: read start_state_def new_IniFile_def)
qed


lemma getSection_map:
  assumes "\<And>s. name (g s) = name s"
  shows "getSection (d\<lparr>sections := map g (sections d)\<rparr>) n = map_option g (getSection d n)"
proof -
  have "map name (map g (sections d)) = map name (sections d)" using assms by simp
  then have find: "find_section (map g (sections d)) n = find_section (sections d) n"
    by (rule find_section_cong)
  show ?thesis
  proof (cases "find_section (sections d) n")
    case None
    with find show ?thesis by (simp add: getSection_def)
  next
    case (Some i)
    with find find_section_less [OF Some] show ?thesis by (simp add: getSection_def)
  qed
qed

section \<open>Writing and reading back\<close>

lemmas classify_eval_defs =
  classify_def parseLine_def char_at0_def Let_def substring_def substring_from_def
  remove_whitespace_def remove_quotes_def is_whitespace_def is_quote_def

lemma spaced_reloaded:
  "snd (load new_IniFile (readline_lines (snd (save spaced_document))) True) =
     \<lparr>sections = [\<lparr>name = ''Core'', keysOrder = [''Title''], lines = [[]],
        values = [''Title'' \<mapsto> ''SuperSmash'']\<rparr>]\<rparr>"
proof -
  have "readline_lines (snd (save spaced_document)) = [''[Core]'', ''Title=Super Smash'', []]"
    by (simp add: save_blocks section_block_def key_value_line_def to_string_def unlines_def
        spaced_document_def readline_lines_def LF_def CR_def)
  moreover have "snd (load new_IniFile [''[Core]'', ''Title=Super Smash'', []] True) =
      \<lparr>sections = [\<lparr>name = ''Core'', keysOrder = [''Title''], lines = [[]],
         values = [''Title'' \<mapsto> ''SuperSmash'']\<rparr>]\<rparr>"
    by (simp add: load_eval_defs)
  ultimately show ?thesis by (simp only:)
qed

lemma awkward_classes:
  "classify ''[Keys]'' = Header ''Keys''"
  "classify ''x y=1'' = Pair ''xy'' ''1''"
  "classify ''p=q=2'' = Pair ''p'' ''q=2''"
  "classify ''#c=3'' = Raw"
  "classify ''$d=4'' = Raw"
  "classify ''[e=5'' = Ignored"
  "classify [] = Raw"
  "classify ''[a]b]'' = Header ''a''"
  "classify [CHR ''k'', CHR ''='', CHR 0x22, CHR ''v'', CHR 0x22] = Pair ''k'' ''v''"
  by (simp_all add: classify_eval_defs)

lemma awkward_reloaded:
  "snd (load new_IniFile (readline_lines (snd (save awkward_document))) True) =
     \<lparr>sections =
        [\<lparr>name = ''Keys'', keysOrder = [''xy'', ''p''], lines = [''#c=3'', ''$d=4'', []],
          values = [''xy'' \<mapsto> ''1'', ''p'' \<mapsto> ''q=2'']\<rparr>,
         \<lparr>name = ''a'', keysOrder = [''k''], lines = [[]],
          values = [''k'' \<mapsto> ''v'']\<rparr>]\<rparr>"
proof -
  have "readline_lines (snd (save awkward_document)) =
      [''[Keys]'', ''x y=1'', ''p=q=2'', ''#c=3'', ''$d=4'', ''[e=5'', [],
       ''[a]b]'', [CHR ''k'', CHR ''='', CHR 0x22, CHR ''v'', CHR 0x22], []]"
    by (simp add: save_blocks section_block_def key_value_line_def to_string_def unlines_def
        awkward_document_def readline_lines_def LF_def CR_def)
  moreover have "snd (load new_IniFile
      [''[Keys]'', ''x y=1'', ''p=q=2'', ''#c=3'', ''$d=4'', ''[e=5'', [],
       ''[a]b]'', [CHR ''k'', CHR ''='', CHR 0x22, CHR ''v'', CHR 0x22], []] True) =
     \<lparr>sections =
        [\<lparr>name = ''Keys'', keysOrder = [''xy'', ''p''], lines = [''#c=3'', ''$d=4'', []],
          values = [''xy'' \<mapsto> ''1'', ''p'' \<mapsto> ''q=2'']\<rparr>,
         \<lparr>name = ''a'', keysOrder = [''k''], lines = [[]],
          values = [''k'' \<mapsto> ''v'']\<rparr>]\<rparr>"
    by (simp add: load_True strip_bom_def BOM_def start_state_def apply_line_def
        awkward_classes new_IniFile_def getOrCreateSection_def new_Section_def
        update_section_def Section_set_def)
  ultimately show ?thesis by (simp only:)
qed

text \<open>
  Claim C1, as stated, fails. A value with a space in it is written as it is and read back
  without the space; quote characters in a value are lost in the same way. A key with a
  space or with \<open>=\<close> in it is read back as another key, a key that starts with \<open>#\<close>,
  \<open>$\<close> or \<open>[\<close> is not read back as a key at all, and a section name with \<open>]\<close> in it
  is read back as another name.
\<close>

theorem save_load_roundtrip_counterexample:
  "keysOrder (hd (sections spaced_document)) = [''Title''] \<and>
   lines (hd (sections spaced_document)) = [] \<and>
   fst (Section_get (hd (sections spaced_document)) ''Title'' []) = ''Super Smash'' \<and>
   fst (Section_get
     (hd (sections (snd (load new_IniFile (readline_lines (snd (save spaced_document))) True))))
     ''Title'' []) = ''SuperSmash'' \<and>
   map lines (sections awkward_document) = [[], []] \<and>
   getKeys awkward_document ''Keys'' = [''x y'', ''p=q'', ''#c'', ''$d'', ''[e''] \<and>
   getKeys (snd (load new_IniFile (readline_lines (snd (save awkward_document))) True)) ''Keys'' =
     [''xy'', ''p''] \<and>
   getKeys awkward_document ''a]b'' = [''k''] \<and>
   getKeys (snd (load new_IniFile (readline_lines (snd (save awkward_document))) True)) ''a]b'' =
     [] \<and>
   fst (Section_get (sections awkward_document ! 1) ''k'' []) = [CHR 0x22, CHR ''v'', CHR 0x22] \<and>
   fst (Section_get
     (sections (snd (load new_IniFile (readline_lines (snd (save awkward_document))) True)) ! 1)
     ''k'' []) = ''v''"
  unfolding spaced_reloaded awkward_reloaded
  by (simp add: spaced_document_def awkward_document_def Section_get_def getKeys_def
      getSection_def)

text \<open>
  Claim C1, amended. Let the section names of a document be pairwise distinct and free of
  \<open>]\<close> and of line terminators, and let every Section satisfy the data invariant, have at
  least one key and no raw line, with every key free of whitespace and of \<open>=\<close> and not
  starting with \<open>[\<close>, \<open>#\<close>, \<open>$\<close>, \<open>+\<close> or \<open>*\<close>, and every value free of whitespace
  and of quote characters. Then writing the document with \<open>save\<close> and reading the text into
  a fresh document with \<open>load\<close> gives the same sections in the same order, and for every
  section name the same \<open>getKeys\<close> and for every key the same value through \<open>get\<close>.
\<close>

theorem save_load_roundtrip:
  assumes "distinct (map name (sections d))"
    and "\<forall>s\<in>set (sections d). plain_section s"
  shows "map name (sections (snd (load new_IniFile (readline_lines (snd (save d))) keep))) =
      map name (sections d) \<and>
    (\<forall>n. getKeys (snd (load new_IniFile (readline_lines (snd (save d))) keep)) n =
      getKeys d n) \<and>
    (\<forall>n k default_value.
      map_option (\<lambda>s. fst (Section_get s k default_value))
        (getSection (snd (load new_IniFile (readline_lines (snd (save d))) keep)) n) =
      map_option (\<lambda>s. fst (Section_get s k default_value)) (getSection d n))"
proof -
  define d' where "d' = snd (load new_IniFile (readline_lines (snd (save d))) keep)"
  let ?g = "\<lambda>s. s\<lparr>lines := [[]]\<rparr>"
  have "sections d' = map ?g (sections d)"
    unfolding d'_def using assms by (rule save_load_sections)
  then have d': "d' = d\<lparr>sections := map ?g (sections d)\<rparr>" by (cases d, cases d') simp
  have get: "getSection d' n = map_option ?g (getSection d n)" for n
    unfolding d' by (rule getSection_map) simp
  have "map name (sections d') = map name (sections d)" by (simp add: d' comp_def)
  moreover have "getKeys d' n = getKeys d n" for n
    by (cases "getSection d n") (simp_all add: getKeys_def get)
  moreover have "map_option (\<lambda>s. fst (Section_get s k v)) (getSection d' n) =
      map_option (\<lambda>s. fst (Section_get s k v)) (getSection d n)" for n k v
    by (cases "getSection d n") (simp_all add: get Section_get_def split: option.splits)
  ultimately show ?thesis unfolding d'_def by blast
qed

theorem save_load_roundtrip_witness:
  "distinct (map name (sections plain_document)) \<and>
   list_all plain_section (sections plain_document) \<and>
   getKeys (snd (load new_IniFile (readline_lines (snd (save plain_document))) True)) ''Core'' =
     [''CPUThread'', ''GFXBackend''] \<and>
   map_option (\<lambda>s. fst (Section_get s ''GFXBackend'' ''none''))
     (getSection (snd (load new_IniFile (readline_lines (snd (save plain_document))) True)) ''Core'') =
     Some ''OGL''"
proof -
  have names: "distinct (map name (sections plain_document))"
    by (simp add: plain_document_def)
  have plain: "list_all plain_section (sections plain_document)"
    by (auto simp: plain_document_def plain_section_def Section_inv_def plain_name_def
        plain_key_def plain_value_def to_string_def is_whitespace_def is_quote_def LF_def CR_def)
  then have "\<forall>s\<in>set (sections plain_document). plain_section s" by (simp add: list_all_iff)
  from save_load_roundtrip [OF names this, of True] names plain show ?thesis
    by (simp add: getKeys_def getSection_def Section_get_def plain_document_def)
qed

end
